theory Spec2Isabelle
  imports Main "HOL-Library.Word"
begin

unbundle bit_operations_syntax

section \<open>Index tuple header (itup.h)\<close>

text \<open>
  The header file lays an index tuple out as a fixed header \<open>IndexTupleData\<close>, an optional
  null bitmap, an optional 64-bit tuple count and the attribute values. Sizes and offsets
  are values of the C type \<open>Size\<close>; all of them are small compile-time constants, so they
  are natural numbers here. The 16-bit field \<open>t_info\<close> is a \<open>16 word\<close>, the tuple count a
  \<open>64 word\<close>.
\<close>

type_synonym Size = nat
type_synonym uint16 = "16 word"
type_synonym uint64 = "64 word"
type_synonym byte = "8 word"

text \<open>
  The header includes four other headers that fix the platform: the size of
  \<open>IndexTupleData\<close> (its first member is an \<open>ItemPointerData\<close>), the position of \<open>t_info\<close>
  in it, \<open>INDEX_MAX_KEYS\<close>, the maximum alignment \<open>MAXIMUM_ALIGNOF\<close> behind \<open>MAXALIGN\<close>,
  and the byte order. They are the fields of a record that every definition takes.
\<close>

record platform =
  sizeof_IndexTupleData :: Size
  offsetof_t_info :: Size
  INDEX_MAX_KEYS :: nat
  MAXIMUM_ALIGNOF :: nat
  WORDS_BIGENDIAN :: bool

subsection \<open>\<open>t_info\<close> manipulation macros\<close>

definition INDEX_SIZE_MASK :: uint16 where
  "INDEX_SIZE_MASK = 0x1FFF"

definition INDEX_HAS_TUPLE_COUNT :: uint16 where
  "INDEX_HAS_TUPLE_COUNT = 0x2000"

definition INDEX_VAR_MASK :: uint16 where
  "INDEX_VAR_MASK = 0x4000"

definition INDEX_NULL_MASK :: uint16 where
  "INDEX_NULL_MASK = 0x8000"

text \<open>
  Modelled from the spec: \<open>TYPEALIGN\<close>, \<open>MAXALIGN\<close> and \<open>MAXALIGN64\<close> (c.h is not among
  the sources). A region boundary is rounded up to the alignment unit: 8 bytes for the
  boundary after the bitmap (\<open>MAXALIGN64\<close>), the platform's maximum alignment for the
  data boundary (\<open>MAXALIGN\<close>).
\<close>

definition TYPEALIGN :: "nat \<Rightarrow> Size \<Rightarrow> Size" where
  "TYPEALIGN a len = ((len + (a - 1)) div a) * a"

definition MAXALIGN :: "platform \<Rightarrow> Size \<Rightarrow> Size" where
  "MAXALIGN p len = TYPEALIGN (MAXIMUM_ALIGNOF p) len"

definition MAXALIGN64 :: "Size \<Rightarrow> Size" where
  "MAXALIGN64 len = TYPEALIGN 8 len"

text \<open>\<open>sizeof(IndexAttributeBitMapData)\<close>: an array of \<open>(INDEX_MAX_KEYS + 8 - 1) / 8\<close> bytes.\<close>

definition sizeof_IndexAttributeBitMapData :: "platform \<Rightarrow> Size" where
  "sizeof_IndexAttributeBitMapData p = (INDEX_MAX_KEYS p + 8 - 1) div 8"

text \<open>\<open>sizeof(IndexTupleCountData)\<close>: a single \<open>uint64\<close>.\<close>

definition sizeof_IndexTupleCountData :: Size where
  "sizeof_IndexTupleCountData = 8"

definition IndexInfoFindDataOffset :: "platform \<Rightarrow> uint16 \<Rightarrow> Size" where
  "IndexInfoFindDataOffset p t_info =
     MAXALIGN p
       (MAXALIGN64
          (sizeof_IndexTupleData p +
           (if t_info AND INDEX_NULL_MASK \<noteq> 0 then sizeof_IndexAttributeBitMapData p else 0)) +
        (if t_info AND INDEX_HAS_TUPLE_COUNT \<noteq> 0 then sizeof_IndexTupleCountData else 0))"

definition IndexInfoFindTupleCountOffset :: "platform \<Rightarrow> uint16 \<Rightarrow> Size" where
  "IndexInfoFindTupleCountOffset p t_info =
     (if \<not> (t_info AND INDEX_NULL_MASK \<noteq> 0)
      then MAXALIGN64 (sizeof_IndexTupleData p)
      else MAXALIGN64 (sizeof_IndexTupleData p + sizeof_IndexAttributeBitMapData p))"

subsection \<open>Tuples in memory\<close>

text \<open>
  An \<open>IndexTuple\<close> is a pointer to the header, with more data following the struct. The
  model is the buffer behind the pointer: the bytes from address \<open>tup\<close> on, so that
  \<open>(char *) tup + off\<close> is position \<open>off\<close> of the list. C does not check an access; one
  that leaves the buffer is undefined there and is the error \<open>OutOfBuffer\<close> here, as an
  index beyond the descriptor array is \<open>OutOfRange\<close>. A violated assertion is the error
  \<open>AssertFailure\<close>.
\<close>

datatype error = AssertFailure | OutOfBuffer | OutOfRange

text \<open>
  Modelled from the spec: \<open>Assert\<close> and \<open>AssertMacro\<close> (c.h is not among the sources).
  A contract violation fails fast, at once and fatally: the evaluation ends with
  \<open>AssertFailure\<close> and nothing behind the assertion is evaluated.
\<close>

definition Assert :: "bool \<Rightarrow> error + unit" where
  "Assert condition = (if condition then Inr () else Inl AssertFailure)"

definition AssertMacro :: "bool \<Rightarrow> error + unit" where
  "AssertMacro condition = (if condition then Inr () else Inl AssertFailure)"

text \<open>Integers lie in memory in the platform's byte order.\<close>

fun bytes_le :: "nat \<Rightarrow> 'a::len word \<Rightarrow> byte list" where
  "bytes_le 0 w = []"
| "bytes_le (Suc n) w = ucast w # bytes_le n (drop_bit 8 w)"

fun word_le :: "byte list \<Rightarrow> 'a::len word" where
  "word_le [] = 0"
| "word_le (b # bs) = ucast b OR push_bit 8 (word_le bs)"

definition to_bytes :: "platform \<Rightarrow> nat \<Rightarrow> 'a::len word \<Rightarrow> byte list" where
  "to_bytes p n w = (if WORDS_BIGENDIAN p then rev (bytes_le n w) else bytes_le n w)"

definition of_bytes :: "platform \<Rightarrow> byte list \<Rightarrow> 'a::len word" where
  "of_bytes p bs = word_le (if WORDS_BIGENDIAN p then rev bs else bs)"

text \<open>\<open>*(T *) ((char *) tup + off)\<close> as a value, for an integer type \<open>T\<close> of \<open>n\<close> bytes.\<close>

definition load :: "platform \<Rightarrow> byte list \<Rightarrow> Size \<Rightarrow> nat \<Rightarrow> error + 'a::len word" where
  "load p tup off n =
     (if off + n \<le> length tup then Inr (of_bytes p (take n (drop off tup)))
      else Inl OutOfBuffer)"

text \<open>\<open>*(T *) ((char *) tup + off) = w\<close>: the buffer after the assignment.\<close>

definition store :: "platform \<Rightarrow> byte list \<Rightarrow> Size \<Rightarrow> nat \<Rightarrow> 'a::len word \<Rightarrow> error + byte list" where
  "store p tup off n w =
     (if off + n \<le> length tup then Inr (take off tup @ to_bytes p n w @ drop (off + n) tup)
      else Inl OutOfBuffer)"

text \<open>\<open>tup->t_info\<close>, an \<open>unsigned short\<close> member of the header.\<close>

definition t_info :: "platform \<Rightarrow> byte list \<Rightarrow> error + uint16" where
  "t_info p tup = load p tup (offsetof_t_info p) 2"

text \<open>\<open>tup->t_tid\<close>: the header's bytes before \<open>t_info\<close>.\<close>

definition t_tid :: "platform \<Rightarrow> byte list \<Rightarrow> byte list" where
  "t_tid p tup = take (offsetof_t_info p) tup"

definition IndexTupleSize :: "platform \<Rightarrow> byte list \<Rightarrow> error + Size" where
  "IndexTupleSize p tup =
     (case t_info p tup of Inl e \<Rightarrow> Inl e | Inr info \<Rightarrow> Inr (unat (info AND INDEX_SIZE_MASK)))"

definition IndexTupleHasTupleCount :: "platform \<Rightarrow> byte list \<Rightarrow> error + bool" where
  "IndexTupleHasTupleCount p tup =
     (case t_info p tup of Inl e \<Rightarrow> Inl e
      | Inr info \<Rightarrow> Inr (info AND INDEX_HAS_TUPLE_COUNT \<noteq> 0))"

definition IndexTupleHasNulls :: "platform \<Rightarrow> byte list \<Rightarrow> error + bool" where
  "IndexTupleHasNulls p tup =
     (case t_info p tup of Inl e \<Rightarrow> Inl e | Inr info \<Rightarrow> Inr (info AND INDEX_NULL_MASK \<noteq> 0))"

definition IndexTupleHasVarwidths :: "platform \<Rightarrow> byte list \<Rightarrow> error + bool" where
  "IndexTupleHasVarwidths p tup =
     (case t_info p tup of Inl e \<Rightarrow> Inl e | Inr info \<Rightarrow> Inr (info AND INDEX_VAR_MASK \<noteq> 0))"

subsection \<open>The tuple count\<close>

definition index_tuple_get_count :: "platform \<Rightarrow> byte list \<Rightarrow> error + uint64" where
  "index_tuple_get_count p tup =
     (case IndexTupleHasTupleCount p tup of
        Inl e \<Rightarrow> Inl e
      | Inr has_tuple_count \<Rightarrow>
          (case Assert has_tuple_count of
             Inl e \<Rightarrow> Inl e
           | Inr _ \<Rightarrow>
               (case t_info p tup of
                  Inl e \<Rightarrow> Inl e
                | Inr info \<Rightarrow> load p tup (IndexInfoFindTupleCountOffset p info) 8)))"

definition index_tuple_set_count :: "platform \<Rightarrow> byte list \<Rightarrow> uint64 \<Rightarrow> error + byte list" where
  "index_tuple_set_count p tup tuple_count =
     (case IndexTupleHasTupleCount p tup of
        Inl e \<Rightarrow> Inl e
      | Inr has_tuple_count \<Rightarrow>
          (case Assert has_tuple_count of
             Inl e \<Rightarrow> Inl e
           | Inr _ \<Rightarrow>
               (case t_info p tup of
                  Inl e \<Rightarrow> Inl e
                | Inr info \<Rightarrow>
                    store p tup (IndexInfoFindTupleCountOffset p info) 8 tuple_count)))"

definition index_tuple_add_count :: "platform \<Rightarrow> byte list \<Rightarrow> uint64 \<Rightarrow> error + byte list" where
  "index_tuple_add_count p tup delta_tuple_count =
     (case IndexTupleHasTupleCount p tup of
        Inl e \<Rightarrow> Inl e
      | Inr has_tuple_count \<Rightarrow>
          (case Assert has_tuple_count of
             Inl e \<Rightarrow> Inl e
           | Inr _ \<Rightarrow>
               (case t_info p tup of
                  Inl e \<Rightarrow> Inl e
                | Inr info \<Rightarrow>
                    (case load p tup (IndexInfoFindTupleCountOffset p info) 8 of
                       Inl e \<Rightarrow> Inl e
                     | Inr (old :: uint64) \<Rightarrow>
                         store p tup (IndexInfoFindTupleCountOffset p info) 8
                           (old + delta_tuple_count)))))"

subsection \<open>\<open>index_getattr\<close>\<close>

text \<open>
  Modelled from the spec: the attribute descriptor (tupdesc.h is not among the sources):
  per column a width, an alignment requirement and the cached offset, negative while
  unknown. The macro reads \<open>attcacheoff\<close> only and hands the descriptor on.
\<close>

record Form_pg_attribute =
  attlen :: int
  attalign :: nat
  attcacheoff :: int

record TupleDesc =
  attrs :: "Form_pg_attribute list"

text \<open>\<open>tupleDesc->attrs[i]\<close>\<close>

definition attrs_at :: "TupleDesc \<Rightarrow> int \<Rightarrow> error + Form_pg_attribute" where
  "attrs_at tupleDesc i =
     (if 0 \<le> i \<and> i < int (length (attrs tupleDesc)) then Inr (attrs tupleDesc ! nat i)
      else Inl OutOfRange)"

text \<open>
  Modelled from the spec: \<open>att_isnull\<close> (tupmacs.h is not among the sources). The bitmap
  holds one bit per attribute position; bit \<open>i\<close> set marks attribute \<open>i + 1\<close> null. The
  macro looks at byte \<open>ATT >> 3\<close> behind \<open>BITS\<close>, bit \<open>ATT & 0x07\<close>.
\<close>

definition att_isnull :: "nat \<Rightarrow> byte list \<Rightarrow> Size \<Rightarrow> error + bool" where
  "att_isnull att tup bits =
     (if bits + att div 8 < length tup then Inr (bit (tup ! (bits + att div 8)) (att mod 8))
      else Inl OutOfBuffer)"

text \<open>
  \<open>fetchatt\<close> and \<open>nocache_index_getattr\<close> are not among the sources. The value of the
  macro is therefore the expression it selects: the direct fetch with its descriptor and
  its position in the tuple, the call of the walk with its attribute number, or
  \<open>(Datum) NULL\<close>.
\<close>

datatype getattr_value =
    Fetchatt Form_pg_attribute Size
  | Nocache_index_getattr int
  | Datum_NULL

text \<open>
  An evaluation of the macro yields the selected expression, what it left in \<open>*isnull\<close>,
  and the positions of the tuple that the macro itself has read (the two bytes of
  \<open>t_info\<close>, and the bitmap byte that \<open>att_isnull\<close> looks at).
\<close>

record getattr_result =
  datum :: getattr_value
  isnull :: bool
  touched :: "Size list"

definition t_info_bytes :: "platform \<Rightarrow> Size list" where
  "t_info_bytes p = [offsetof_t_info p, offsetof_t_info p + 1]"

definition index_getattr ::
  "platform \<Rightarrow> byte list \<Rightarrow> int \<Rightarrow> TupleDesc \<Rightarrow> bool \<Rightarrow> error + getattr_result" where
  "index_getattr p tup attnum tupleDesc isnull_valid =
     (case AssertMacro (isnull_valid \<and> attnum > 0) of
        Inl e \<Rightarrow> Inl e
      | Inr _ \<Rightarrow>
        case IndexTupleHasNulls p tup of
          Inl e \<Rightarrow> Inl e
        | Inr tuple_has_nulls \<Rightarrow>
            if \<not> tuple_has_nulls then
              (case attrs_at tupleDesc (attnum - 1) of
                 Inl e \<Rightarrow> Inl e
               | Inr att \<Rightarrow>
                   if attcacheoff att \<ge> 0 then
                     (case t_info p tup of
                        Inl e \<Rightarrow> Inl e
                      | Inr info \<Rightarrow>
                          Inr \<lparr>datum = Fetchatt att
                                  (IndexInfoFindDataOffset p info + nat (attcacheoff att)),
                               isnull = False, touched = t_info_bytes p\<rparr>)
                   else
                     Inr \<lparr>datum = Nocache_index_getattr attnum,
                          isnull = False, touched = t_info_bytes p\<rparr>)
            else
              (case att_isnull (nat (attnum - 1)) tup (sizeof_IndexTupleData p) of
                 Inl e \<Rightarrow> Inl e
               | Inr null \<Rightarrow>
                   if null then
                     Inr \<lparr>datum = Datum_NULL, isnull = True,
                          touched = t_info_bytes p @
                            [sizeof_IndexTupleData p + nat (attnum - 1) div 8]\<rparr>
                   else
                     Inr \<lparr>datum = Nocache_index_getattr attnum, isnull = False,
                          touched = t_info_bytes p @
                            [sizeof_IndexTupleData p + nat (attnum - 1) div 8]\<rparr>))"

subsection \<open>What an update of the count may change\<close>

text \<open>
  The frame of an in-place update: \<open>tup'\<close> has the length of \<open>tup\<close> and differs from it at
  most in the 8 bytes from the counter offset on. Spelled out for the regions of the
  layout: the heap reference \<open>t_tid\<close>, \<open>t_info\<close>, the header together with the bitmap when
  there is one, and everything from the data offset on are the same.
\<close>

definition only_counter_bytes_differ ::
  "platform \<Rightarrow> uint16 \<Rightarrow> byte list \<Rightarrow> byte list \<Rightarrow> bool" where
  "only_counter_bytes_differ p info tup tup' \<longleftrightarrow>
     length tup' = length tup \<and>
     (\<forall>i \<in> {0..<length tup}.
        i < IndexInfoFindTupleCountOffset p info \<or> IndexInfoFindTupleCountOffset p info + 8 \<le> i
        \<longrightarrow> tup' ! i = tup ! i) \<and>
     t_tid p tup' = t_tid p tup \<and>
     t_info p tup' = t_info p tup \<and>
     take (sizeof_IndexTupleData p +
           (if info AND INDEX_NULL_MASK \<noteq> 0 then sizeof_IndexAttributeBitMapData p else 0)) tup' =
       take (sizeof_IndexTupleData p +
             (if info AND INDEX_NULL_MASK \<noteq> 0 then sizeof_IndexAttributeBitMapData p else 0)) tup \<and>
     drop (IndexInfoFindDataOffset p info) tup' = drop (IndexInfoFindDataOffset p info) tup"

subsection \<open>The layout as the specification words it\<close>

text \<open>
  The specification's Layout Calculator, written from its sentences: flag bits by position,
  \<open>align8\<close> as the least multiple of 8 not below its argument, the bitmap as
  \<open>ceil(MAX_KEY_ATTRIBUTES / 8)\<close> bytes and the counter as 8 bytes.
\<close>

definition has_nulls :: "uint16 \<Rightarrow> bool" where
  "has_nulls info = bit info 15"

definition has_varwidth :: "uint16 \<Rightarrow> bool" where
  "has_varwidth info = bit info 14"

definition has_count :: "uint16 \<Rightarrow> bool" where
  "has_count info = bit info 13"

definition align8 :: "nat \<Rightarrow> nat" where
  "align8 n = (if n mod 8 = 0 then n else n + (8 - n mod 8))"

definition header_size :: "platform \<Rightarrow> nat" where
  "header_size p = sizeof_IndexTupleData p"

definition bitmap_size :: "platform \<Rightarrow> nat" where
  "bitmap_size p = INDEX_MAX_KEYS p div 8 + (if INDEX_MAX_KEYS p mod 8 = 0 then 0 else 1)"

definition counter_size :: nat where
  "counter_size = 8"

definition spec_data_offset :: "platform \<Rightarrow> uint16 \<Rightarrow> nat" where
  "spec_data_offset p info =
     align8 (align8 (header_size p + (if has_nulls info then bitmap_size p else 0)) +
             (if has_count info then counter_size else 0))"

definition spec_counter_offset :: "platform \<Rightarrow> uint16 \<Rightarrow> nat" where
  "spec_counter_offset p info =
     align8 (header_size p + (if has_nulls info then bitmap_size p else 0))"

text \<open>The usual 64-bit build: an 8-byte header with \<open>t_info\<close> in its last two bytes,
  32 index keys, 8-byte maximum alignment, little-endian.\<close>

definition x86_64 :: platform where
  "x86_64 = \<lparr>sizeof_IndexTupleData = 8, offsetof_t_info = 6, INDEX_MAX_KEYS = 32,
             MAXIMUM_ALIGNOF = 8, WORDS_BIGENDIAN = False\<rparr>"

text \<open>
  Two tuples of that build. \<open>tup0\<close> has no flag and size 16; \<open>tup1\<close> has \<open>HAS_COUNT\<close>, size
  24 and the count \<open>2^64 - 1\<close>.
\<close>

definition tup0 :: "byte list" where
  "tup0 = [1, 2, 3, 4, 5, 6, 0x10, 0x00, 7, 7, 7, 7, 7, 7, 7, 7]"

definition tup1 :: "byte list" where
  "tup1 = [1, 2, 3, 4, 5, 6, 0x18, 0x20,
           0xFF, 0xFF, 0xFF, 0xFF, 0xFF, 0xFF, 0xFF, 0xFF,
           7, 7, 7, 7, 7, 7, 7, 7]"

text \<open>
  \<open>tup2\<close> has \<open>HAS_NULLS\<close> and size 24: the bitmap marks the second attribute position
  null, the data region holds one 4-byte value. \<open>desc1\<close> describes that one column, with
  its offset cached.
\<close>

definition tup2 :: "byte list" where
  "tup2 = [1, 2, 3, 4, 5, 6, 0x18, 0x80,
           0x02, 0, 0, 0, 0, 0, 0, 0,
           42, 0, 0, 0, 0, 0, 0, 0]"

definition desc1 :: TupleDesc where
  "desc1 = \<lparr>attrs = [\<lparr>attlen = 4, attalign = 4, attcacheoff = 0\<rparr>]\<rparr>"

section \<open>Layout lemmas\<close>

lemma null_mask_bit: "(t AND INDEX_NULL_MASK \<noteq> 0) = bit t 15"
proof -
  have "INDEX_NULL_MASK = 2 ^ 15" by (simp add: INDEX_NULL_MASK_def)
  moreover have "(t AND 2 ^ 15 \<noteq> 0) = bit t 15"
    using and_exp_eq_0_iff_not_bit [of t 15] by blast
  ultimately show ?thesis by (simp only:)
qed

lemma count_mask_bit: "(t AND INDEX_HAS_TUPLE_COUNT \<noteq> 0) = bit t 13"
proof -
  have "INDEX_HAS_TUPLE_COUNT = 2 ^ 13" by (simp add: INDEX_HAS_TUPLE_COUNT_def)
  moreover have "(t AND 2 ^ 13 \<noteq> 0) = bit t 13"
    using and_exp_eq_0_iff_not_bit [of t 13] by blast
  ultimately show ?thesis by (simp only:)
qed

lemma MAXALIGN64_align8: "MAXALIGN64 n = align8 n"
  unfolding MAXALIGN64_def TYPEALIGN_def align8_def by presburger

lemma bitmap_size_sizeof: "sizeof_IndexAttributeBitMapData p = bitmap_size p"
  unfolding sizeof_IndexAttributeBitMapData_def bitmap_size_def by presburger

lemma align8_dvd: "8 dvd align8 n"
  unfolding align8_def by presburger

lemma align8_ge: "n \<le> align8 n"
  unfolding align8_def by presburger

lemma TYPEALIGN_dvd: "a dvd TYPEALIGN a n"
  unfolding TYPEALIGN_def by simp

lemma TYPEALIGN_ge:
  assumes "0 < a"
  shows "n \<le> TYPEALIGN a n"
proof -
  have "n + (a - 1) < ((n + (a - 1)) div a) * a + a"
    using assms by (metis div_mult_mod_eq add_less_cancel_left mod_less_divisor)
  then show ?thesis unfolding TYPEALIGN_def using assms by linarith
qed

lemma TYPEALIGN_fixed:
  assumes "0 < a" and "a dvd n"
  shows "TYPEALIGN a n = n"
proof -
  from assms(2) obtain k where k: "n = a * k" ..
  have "a * k + (a - 1) = (a - 1) + k * a"
    by (simp add: mult.commute)
  then have "(a * k + (a - 1)) div a = k"
    using assms(1) by (simp only: div_mult_self1) simp
  then show ?thesis unfolding TYPEALIGN_def k by simp
qed

lemma layout_order:
  assumes "0 < MAXIMUM_ALIGNOF p"
  shows "8 dvd IndexInfoFindTupleCountOffset p info"
    and "sizeof_IndexTupleData p +
           (if info AND INDEX_NULL_MASK \<noteq> 0 then sizeof_IndexAttributeBitMapData p else 0)
         \<le> IndexInfoFindTupleCountOffset p info"
    and "MAXIMUM_ALIGNOF p dvd IndexInfoFindDataOffset p info"
    and "IndexInfoFindTupleCountOffset p info +
           (if info AND INDEX_HAS_TUPLE_COUNT \<noteq> 0 then 8 else 0)
         \<le> IndexInfoFindDataOffset p info"
proof -
  show "8 dvd IndexInfoFindTupleCountOffset p info"
    unfolding IndexInfoFindTupleCountOffset_def MAXALIGN64_def by (simp add: TYPEALIGN_dvd)
  show "sizeof_IndexTupleData p +
           (if info AND INDEX_NULL_MASK \<noteq> 0 then sizeof_IndexAttributeBitMapData p else 0)
         \<le> IndexInfoFindTupleCountOffset p info"
    unfolding IndexInfoFindTupleCountOffset_def MAXALIGN64_def by (simp add: TYPEALIGN_ge)
  show "MAXIMUM_ALIGNOF p dvd IndexInfoFindDataOffset p info"
    unfolding IndexInfoFindDataOffset_def MAXALIGN_def by (rule TYPEALIGN_dvd)
  have eq: "MAXALIGN64 (sizeof_IndexTupleData p +
           (if info AND INDEX_NULL_MASK \<noteq> 0 then sizeof_IndexAttributeBitMapData p else 0))
        = IndexInfoFindTupleCountOffset p info"
    unfolding IndexInfoFindTupleCountOffset_def by simp
  have "IndexInfoFindTupleCountOffset p info +
         (if info AND INDEX_HAS_TUPLE_COUNT \<noteq> 0 then sizeof_IndexTupleCountData else 0)
        \<le> IndexInfoFindDataOffset p info"
    unfolding IndexInfoFindDataOffset_def MAXALIGN_def eq
    using assms by (rule TYPEALIGN_ge)
  then show "IndexInfoFindTupleCountOffset p info +
           (if info AND INDEX_HAS_TUPLE_COUNT \<noteq> 0 then 8 else 0)
         \<le> IndexInfoFindDataOffset p info"
    by (simp add: sizeof_IndexTupleCountData_def split: if_splits)
qed

lemma flag_bits_xor:
  assumes "m AND NOT (INDEX_VAR_MASK OR INDEX_SIZE_MASK) = 0"
  shows "bit (t XOR m) 15 = bit t 15" and "bit (t XOR m) 13 = bit t 13"
proof -
  have "bit (m AND NOT (INDEX_VAR_MASK OR INDEX_SIZE_MASK)) n = False" for n
    using assms by simp
  from this [of 15] this [of 13] have "\<not> bit m 15" "\<not> bit m 13"
    by (simp_all add: bit_simps INDEX_VAR_MASK_def INDEX_SIZE_MASK_def)
  then show "bit (t XOR m) 15 = bit t 15" and "bit (t XOR m) 13 = bit t 13"
    by (simp_all add: bit_simps)
qed

lemma bitmap_byte_in_bitmap:
  assumes "0 < attnum" and "attnum \<le> int (INDEX_MAX_KEYS p)"
  shows "nat (attnum - 1) div 8 < sizeof_IndexAttributeBitMapData p"
proof -
  have "a div 8 < (n + 8 - 1) div 8" if "a < n" for a n :: nat
    using that by arith
  moreover have "nat (attnum - 1) < INDEX_MAX_KEYS p" using assms by linarith
  ultimately show ?thesis unfolding sizeof_IndexAttributeBitMapData_def by blast
qed

section \<open>Memory lemmas\<close>

lemma length_bytes_le: "length (bytes_le n w) = n"
  by (induction n arbitrary: w) simp_all

lemma length_to_bytes: "length (to_bytes p n w) = n"
  by (simp add: to_bytes_def length_bytes_le)

lemma word_le_bytes_le: "word_le (bytes_le n w) = take_bit (8 * n) (w :: 'a::len word)"
proof (induction n arbitrary: w)
  case 0
  then show ?case by simp
next
  case (Suc n)
  have "(ucast (ucast w :: byte) :: 'a word) OR push_bit 8 (take_bit (8 * n) (drop_bit 8 w))
        = take_bit (8 * Suc n) w"
    by (rule bit_eqI) (auto simp add: bit_simps)
  with Suc show ?case by simp
qed

lemma of_bytes_to_bytes_64: "of_bytes p (to_bytes p 8 w) = (w :: uint64)"
proof -
  have "word_le (bytes_le 8 w) = w"
    by (simp add: word_le_bytes_le take_bit_word_eq_self)
  then show ?thesis
    by (cases "WORDS_BIGENDIAN p") (simp_all add: of_bytes_def to_bytes_def)
qed

lemma store_length:
  assumes "store p tup off n w = Inr tup'"
  shows "length tup' = length tup"
  using assms by (auto simp: store_def length_to_bytes split: if_splits)

lemma store_nth_other:
  assumes "store p tup off n w = Inr tup'" and "i < off \<or> off + n \<le> i" and "i < length tup"
  shows "tup' ! i = tup ! i"
proof -
  from assms(1) have le: "off + n \<le> length tup"
    and eq: "tup' = take off tup @ to_bytes p n w @ drop (off + n) tup"
    by (auto simp: store_def split: if_splits)
  from assms(2) show ?thesis
  proof
    assume "i < off"
    with le show ?thesis by (simp add: eq nth_append)
  next
    assume ge: "off + n \<le> i"
    have len: "length (take off tup @ to_bytes p n w) = off + n"
      using le by (simp add: length_to_bytes)
    have "tup' = (take off tup @ to_bytes p n w) @ drop (off + n) tup"
      by (simp add: eq)
    then have "tup' ! i = drop (off + n) tup ! (i - (off + n))"
      using ge len by (simp only: nth_append) simp
    then show ?thesis using ge le by simp
  qed
qed

lemma store_take:
  assumes "store p tup off n w = Inr tup'" and "k \<le> off"
  shows "take k tup' = take k tup"
  using assms by (auto simp: store_def min_def split: if_splits)

lemma store_drop:
  assumes "store p tup off n w = Inr tup'" and "off + n \<le> k"
  shows "drop k tup' = drop k tup"
  using assms by (auto simp: store_def length_to_bytes min_def split: if_splits)

lemma load_store_same:
  assumes "store p tup off 8 (w :: uint64) = Inr tup'"
  shows "load p tup' off 8 = Inr w"
proof -
  from assms have le: "off + 8 \<le> length tup"
    and eq: "tup' = take off tup @ to_bytes p 8 w @ drop (off + 8) tup"
    by (auto simp: store_def split: if_splits)
  have "take 8 (drop off tup') = to_bytes p 8 w"
    using le by (simp add: eq length_to_bytes min_def)
  moreover have "length tup' = length tup" using assms by (rule store_length)
  ultimately show ?thesis using le by (simp add: load_def of_bytes_to_bytes_64)
qed

lemma load_store_before:
  assumes "store p tup off n w = Inr tup'" and "off' + m \<le> off"
  shows "load p tup' off' m = load p tup off' m"
proof -
  have "take (off' + m) tup' = take (off' + m) tup"
    using assms by (rule store_take)
  then have "drop off' (take (off' + m) tup') = drop off' (take (off' + m) tup)" by simp
  then have "take m (drop off' tup') = take m (drop off' tup)"
    by (simp add: drop_take)
  moreover have "length tup' = length tup" using assms(1) by (rule store_length)
  ultimately show ?thesis by (simp add: load_def)
qed

lemma store_defined:
  assumes "off + n \<le> length tup"
  shows "\<exists>tup'. store p tup off n w = Inr tup'"
  using assms by (simp add: store_def)

lemma store_counter_frame:
  assumes hdr: "offsetof_t_info p + 2 \<le> sizeof_IndexTupleData p"
    and al: "0 < MAXIMUM_ALIGNOF p"
    and cnt: "info AND INDEX_HAS_TUPLE_COUNT \<noteq> 0"
    and st: "store p tup (IndexInfoFindTupleCountOffset p info) 8 w = Inr tup'"
  shows "only_counter_bytes_differ p info tup tup'"
proof -
  let ?off = "IndexInfoFindTupleCountOffset p info"
  let ?hb = "sizeof_IndexTupleData p +
    (if info AND INDEX_NULL_MASK \<noteq> 0 then sizeof_IndexAttributeBitMapData p else 0)"
  have hb: "?hb \<le> ?off"
    using layout_order(2) [OF al, of info] .
  have data: "?off + 8 \<le> IndexInfoFindDataOffset p info"
    using layout_order(4) [OF al, of info] cnt by simp
  have h: "sizeof_IndexTupleData p \<le> ?off"
    using hb by (simp split: if_splits)
  have "length tup' = length tup" using st by (rule store_length)
  moreover have "\<forall>i \<in> {0..<length tup}. i < ?off \<or> ?off + 8 \<le> i \<longrightarrow> tup' ! i = tup ! i"
    using store_nth_other [OF st] by simp
  moreover have "t_tid p tup' = t_tid p tup"
  proof -
    have "offsetof_t_info p \<le> ?off" using hdr h by linarith
    with st show ?thesis unfolding t_tid_def by (rule store_take)
  qed
  moreover have "t_info p tup' = t_info p tup"
  proof -
    have "offsetof_t_info p + 2 \<le> ?off" using hdr h by linarith
    with st show ?thesis unfolding t_info_def by (rule load_store_before)
  qed
  moreover have "take ?hb tup' = take ?hb tup"
    using st hb by (rule store_take)
  moreover have "drop (IndexInfoFindDataOffset p info) tup' = drop (IndexInfoFindDataOffset p info) tup"
    using st data by (rule store_drop)
  ultimately show ?thesis unfolding only_counter_bytes_differ_def by simp
qed

lemma add_count_step:
  assumes hdr: "offsetof_t_info p + 2 \<le> sizeof_IndexTupleData p"
    and "index_tuple_get_count p tup = Inr c"
  shows "\<exists>tup'. index_tuple_add_count p tup d = Inr tup' \<and>
                index_tuple_get_count p tup' = Inr (c + d)"
proof -
  from assms(2) obtain info where info: "t_info p tup = Inr info"
    and cnt: "info AND INDEX_HAS_TUPLE_COUNT \<noteq> 0"
    and ld: "load p tup (IndexInfoFindTupleCountOffset p info) 8 = Inr c"
    by (auto simp: index_tuple_get_count_def IndexTupleHasTupleCount_def Assert_def
        split: sum.splits if_splits)
  let ?off = "IndexInfoFindTupleCountOffset p info"
  from ld have room: "?off + 8 \<le> length tup"
    by (simp add: load_def split: if_splits)
  obtain tup' where st: "store p tup ?off 8 (c + d) = Inr tup'"
    using store_defined [OF room] by blast
  have "sizeof_IndexTupleData p \<le> ?off"
    unfolding IndexInfoFindTupleCountOffset_def MAXALIGN64_def
    by (simp add: le_trans [OF _ TYPEALIGN_ge])
  then have "offsetof_t_info p + 2 \<le> ?off" using hdr by linarith
  with st have "t_info p tup' = t_info p tup"
    unfolding t_info_def by (rule load_store_before)
  moreover have "load p tup' ?off 8 = Inr (c + d)" using st by (rule load_store_same)
  ultimately have "index_tuple_get_count p tup' = Inr (c + d)"
    using info cnt
    by (simp add: index_tuple_get_count_def IndexTupleHasTupleCount_def Assert_def)
  moreover have "index_tuple_add_count p tup d = Inr tup'"
    using info cnt ld st
    by (simp add: index_tuple_add_count_def IndexTupleHasTupleCount_def Assert_def)
  ultimately show ?thesis by blast
qed

lemma take_eq_length:
  assumes "take n tup' = take n tup" and "k \<le> n" and "k \<le> length tup"
  shows "k \<le> length tup'" and "take k tup' = take k tup"
proof -
  have "length (take n tup') = length (take n tup)" using assms(1) by simp
  then show "k \<le> length tup'" using assms(2,3) by simp
  have "take k (take n tup') = take k (take n tup)" using assms(1) by simp
  then show "take k tup' = take k tup" using assms(2) by (simp add: min_def)
qed

lemma load_take_eq:
  assumes "take n tup' = take n tup" and "off + m \<le> n" and "off + m \<le> length tup"
  shows "load p tup' off m = load p tup off m"
proof -
  have len: "off + m \<le> length tup'" and eq: "take (off + m) tup' = take (off + m) tup"
    using take_eq_length [OF assms] by simp_all
  have "drop off (take (off + m) tup') = drop off (take (off + m) tup)" using eq by simp
  then have "take m (drop off tup') = take m (drop off tup)" by (simp add: drop_take)
  then show ?thesis using len assms(3) by (simp add: load_def)
qed

lemma att_isnull_take_eq:
  assumes "take n tup' = take n tup" and "bits + att div 8 < n"
    and "bits + att div 8 < length tup"
  shows "att_isnull att tup' bits = att_isnull att tup bits"
proof -
  let ?k = "bits + att div 8"
  have s: "Suc ?k \<le> n" "Suc ?k \<le> length tup" using assms(2,3) by simp_all
  have len: "Suc ?k \<le> length tup'" and eq: "take (Suc ?k) tup' = take (Suc ?k) tup"
    using take_eq_length [OF assms(1) s] by simp_all
  have "take (Suc ?k) tup' ! ?k = take (Suc ?k) tup ! ?k" using eq by simp
  then have "tup' ! ?k = tup ! ?k" by simp
  then show ?thesis using len assms(3) by (simp add: att_isnull_def)
qed

section \<open>The Layout Calculator\<close>

text \<open>
  Claim C1. For every 16-bit \<open>t_info\<close>, the offset of the data region that
  \<open>IndexInfoFindDataOffset\<close> computes is
  \<open>align8 (align8 (header_size + (HAS_NULLS ? bitmap_size : 0)) + (HAS_COUNT ? 8 : 0))\<close>,
  with the bitmap of \<open>ceil(INDEX_MAX_KEYS / 8)\<close> bytes. The outer rounding of the macro is
  \<open>MAXALIGN\<close>; it agrees with \<open>align8\<close> on every platform whose maximum alignment
  divides 8 (1, 2, 4 or 8 bytes), because its argument is a multiple of 8 already.
\<close>

theorem data_offset_formula:
  assumes "MAXIMUM_ALIGNOF p dvd 8"
  shows "IndexInfoFindDataOffset p info = spec_data_offset p info"
proof -
  define inner where
    "inner = align8 (header_size p + (if has_nulls info then bitmap_size p else 0))"
  define x where "x = inner + (if has_count info then counter_size else 0)"
  have pos: "0 < MAXIMUM_ALIGNOF p"
    using assms by (cases "MAXIMUM_ALIGNOF p = 0") simp_all
  have "8 dvd inner" unfolding inner_def by (rule align8_dvd)
  then have x8: "8 dvd x" unfolding x_def counter_size_def by simp
  then have "MAXIMUM_ALIGNOF p dvd x" using assms by (rule dvd_trans [rotated])
  then have "TYPEALIGN (MAXIMUM_ALIGNOF p) x = x" using pos by (simp add: TYPEALIGN_fixed)
  moreover have "align8 x = x" using x8 unfolding align8_def by (simp add: dvd_eq_mod_eq_0)
  moreover have "IndexInfoFindDataOffset p info = TYPEALIGN (MAXIMUM_ALIGNOF p) x"
    unfolding IndexInfoFindDataOffset_def MAXALIGN_def x_def inner_def
    by (simp add: null_mask_bit count_mask_bit MAXALIGN64_align8 bitmap_size_sizeof
        has_nulls_def has_count_def header_size_def counter_size_def
        sizeof_IndexTupleCountData_def)
  moreover have "spec_data_offset p info = align8 x"
    unfolding spec_data_offset_def x_def inner_def by simp
  ultimately show ?thesis by simp
qed

theorem data_offset_formula_witness:
  "MAXIMUM_ALIGNOF x86_64 dvd 8 \<and>
   IndexInfoFindDataOffset x86_64 0xA010 = spec_data_offset x86_64 0xA010 \<and>
   spec_data_offset x86_64 0xA010 = 24"
  using data_offset_formula [of x86_64 "0xA010"]
  by (simp add: x86_64_def spec_data_offset_def has_nulls_def has_count_def align8_def
      header_size_def bitmap_size_def counter_size_def)

text \<open>
  Claim C4. For every 16-bit \<open>t_info\<close> with \<open>HAS_COUNT\<close> set, the offset of the counter
  that \<open>IndexInfoFindTupleCountOffset\<close> computes is
  \<open>align8 (header_size + (HAS_NULLS ? bitmap_size : 0))\<close>. The macro does not look at
  \<open>HAS_COUNT\<close>, so the equation holds for every \<open>t_info\<close>.
\<close>

theorem counter_offset_formula:
  "IndexInfoFindTupleCountOffset p info = spec_counter_offset p info"
  unfolding IndexInfoFindTupleCountOffset_def spec_counter_offset_def
  by (simp add: null_mask_bit MAXALIGN64_align8 bitmap_size_sizeof has_nulls_def header_size_def)

text \<open>
  Claim C8. Both offsets are functions of the \<open>HAS_NULLS\<close> and \<open>HAS_COUNT\<close> bits only:
  flipping any bits among \<open>HAS_VARWIDTH\<close> (bit 14) and the 13 size bits, that is, xor with
  a mask \<open>m\<close> inside \<open>INDEX_VAR_MASK | INDEX_SIZE_MASK\<close>, changes neither.
\<close>

theorem offsets_ignore_varwidth_and_size:
  assumes "m AND NOT (INDEX_VAR_MASK OR INDEX_SIZE_MASK) = 0"
  shows "IndexInfoFindDataOffset p (info XOR m) = IndexInfoFindDataOffset p info \<and>
         IndexInfoFindTupleCountOffset p (info XOR m) = IndexInfoFindTupleCountOffset p info"
  unfolding IndexInfoFindDataOffset_def IndexInfoFindTupleCountOffset_def
  by (simp only: null_mask_bit count_mask_bit flag_bits_xor [OF assms])

theorem offsets_ignore_varwidth_and_size_witness:
  "(0x5234 :: uint16) AND NOT (INDEX_VAR_MASK OR INDEX_SIZE_MASK) = 0 \<and>
   IndexInfoFindDataOffset x86_64 (0xA010 XOR 0x5234) = IndexInfoFindDataOffset x86_64 0xA010 \<and>
   IndexInfoFindTupleCountOffset x86_64 (0xA010 XOR 0x5234) =
     IndexInfoFindTupleCountOffset x86_64 0xA010"
proof -
  have h: "(0x5234 :: uint16) AND NOT (INDEX_VAR_MASK OR INDEX_SIZE_MASK) = 0"
    by (simp add: INDEX_VAR_MASK_def INDEX_SIZE_MASK_def)
  show ?thesis
    using h offsets_ignore_varwidth_and_size [OF h, of x86_64 "0xA010"] by simp
qed



section \<open>The counter accessors\<close>

text \<open>
  Claim C5. \<open>index_tuple_get_count\<close>, \<open>index_tuple_set_count\<close> and \<open>index_tuple_add_count\<close>
  each assert \<open>HAS_COUNT\<close> first: on a tuple whose flag is clear each of them fails with
  the assertion and neither reads nor writes the counter.
\<close>

theorem count_access_asserts_has_count:
  assumes "t_info p tup = Inr info" and "\<not> has_count info"
  shows "index_tuple_get_count p tup = Inl AssertFailure \<and>
         index_tuple_set_count p tup tuple_count = Inl AssertFailure \<and>
         index_tuple_add_count p tup delta_tuple_count = Inl AssertFailure"
  using assms
  by (simp add: index_tuple_get_count_def index_tuple_set_count_def index_tuple_add_count_def
      IndexTupleHasTupleCount_def Assert_def count_mask_bit has_count_def)

theorem count_access_asserts_has_count_witness:
  "t_info x86_64 tup0 = Inr 0x0010 \<and> \<not> has_count 0x0010 \<and>
   index_tuple_get_count x86_64 tup0 = Inl AssertFailure \<and>
   index_tuple_set_count x86_64 tup0 7 = Inl AssertFailure \<and>
   index_tuple_add_count x86_64 tup0 1 = Inl AssertFailure"
proof -
  have h1: "t_info x86_64 tup0 = Inr 0x0010" by code_simp
  have h2: "\<not> has_count 0x0010" by (simp add: has_count_def)
  show ?thesis
    using h1 h2 count_access_asserts_has_count [OF h1 h2, of 7 1] by simp
qed

text \<open>
  Claim C6. On a tuple with \<open>HAS_COUNT\<close> whose counter holds \<open>initial\<close>, two calls of
  \<open>index_tuple_add_count\<close> with \<open>d1\<close> and \<open>d2\<close> both succeed and leave the counter at
  \<open>initial + d1 + d2\<close> modulo \<open>2^64\<close>; an overflow wraps and is no error.
\<close>

theorem add_count_twice:
  assumes "offsetof_t_info p + 2 \<le> sizeof_IndexTupleData p"
    and "index_tuple_get_count p tup = Inr initial"
  shows "\<exists>tup' tup''.
           index_tuple_add_count p tup d1 = Inr tup' \<and>
           index_tuple_add_count p tup' d2 = Inr tup'' \<and>
           index_tuple_get_count p tup'' = Inr (initial + d1 + d2) \<and>
           unat (initial + d1 + d2) = (unat initial + unat d1 + unat d2) mod 2 ^ 64"
proof -
  obtain tup' where 1: "index_tuple_add_count p tup d1 = Inr tup'"
    and g1: "index_tuple_get_count p tup' = Inr (initial + d1)"
    using add_count_step [OF assms] by blast
  obtain tup'' where 2: "index_tuple_add_count p tup' d2 = Inr tup''"
    and g2: "index_tuple_get_count p tup'' = Inr (initial + d1 + d2)"
    using add_count_step [OF assms(1) g1] by blast
  have "unat (initial + d1 + d2) = (unat initial + unat d1 + unat d2) mod 2 ^ 64"
    by (simp add: unat_word_ariths mod_simps)
  with 1 2 g2 show ?thesis by blast
qed

theorem add_count_twice_witness:
  "offsetof_t_info x86_64 + 2 \<le> sizeof_IndexTupleData x86_64 \<and>
   index_tuple_get_count x86_64 tup1 = Inr 0xFFFFFFFFFFFFFFFF \<and>
   (\<exists>tup' tup''.
      index_tuple_add_count x86_64 tup1 3 = Inr tup' \<and>
      index_tuple_add_count x86_64 tup' 4 = Inr tup'' \<and>
      index_tuple_get_count x86_64 tup'' = Inr 6)"
proof -
  have h1: "offsetof_t_info x86_64 + 2 \<le> sizeof_IndexTupleData x86_64"
    by (simp add: x86_64_def)
  have h2: "index_tuple_get_count x86_64 tup1 = Inr 0xFFFFFFFFFFFFFFFF" by code_simp
  have e: "(0xFFFFFFFFFFFFFFFF + 3 + 4 :: uint64) = 6" by simp
  show ?thesis
    using h1 h2 add_count_twice [OF h1 h2, of 3 4] unfolding e by blast
qed

text \<open>
  Claim C7. On a tuple with \<open>HAS_COUNT\<close> that holds its regions,
  \<open>index_tuple_set_count\<close> and \<open>index_tuple_add_count\<close> succeed and change at most the 8
  bytes at the counter offset: the heap reference, \<open>t_info\<close> with its size and flag bits,
  the bitmap when present and every byte of the data region stay as they were.
\<close>

theorem count_updates_frame:
  assumes "offsetof_t_info p + 2 \<le> sizeof_IndexTupleData p" and "0 < MAXIMUM_ALIGNOF p"
    and "t_info p tup = Inr info" and "has_count info"
    and "IndexInfoFindDataOffset p info \<le> length tup"
  shows "(\<exists>tup'. index_tuple_set_count p tup tuple_count = Inr tup' \<and>
                 only_counter_bytes_differ p info tup tup') \<and>
         (\<exists>tup'. index_tuple_add_count p tup delta_tuple_count = Inr tup' \<and>
                 only_counter_bytes_differ p info tup tup')"
proof -
  let ?off = "IndexInfoFindTupleCountOffset p info"
  have cnt: "info AND INDEX_HAS_TUPLE_COUNT \<noteq> 0"
    using assms(4) by (simp add: count_mask_bit has_count_def)
  have "?off + 8 \<le> IndexInfoFindDataOffset p info"
    using layout_order(4) [OF assms(2), of info] cnt by simp
  then have room: "?off + 8 \<le> length tup" using assms(5) by simp
  obtain old :: uint64 where old: "load p tup ?off 8 = Inr old"
    using room by (simp add: load_def)
  obtain s where s: "store p tup ?off 8 tuple_count = Inr s"
    using store_defined [OF room] by blast
  obtain a where a: "store p tup ?off 8 (old + delta_tuple_count) = Inr a"
    using store_defined [OF room] by blast
  have "index_tuple_set_count p tup tuple_count = Inr s"
    using assms(3) cnt s
    by (simp add: index_tuple_set_count_def IndexTupleHasTupleCount_def Assert_def)
  moreover have "only_counter_bytes_differ p info tup s"
    using assms(1,2) cnt s by (rule store_counter_frame)
  moreover have "index_tuple_add_count p tup delta_tuple_count = Inr a"
    using assms(3) cnt old a
    by (simp add: index_tuple_add_count_def IndexTupleHasTupleCount_def Assert_def)
  moreover have "only_counter_bytes_differ p info tup a"
    using assms(1,2) cnt a by (rule store_counter_frame)
  ultimately show ?thesis by blast
qed

theorem count_updates_frame_witness:
  "offsetof_t_info x86_64 + 2 \<le> sizeof_IndexTupleData x86_64 \<and> 0 < MAXIMUM_ALIGNOF x86_64 \<and>
   t_info x86_64 tup1 = Inr 0x2018 \<and> has_count 0x2018 \<and>
   IndexInfoFindDataOffset x86_64 0x2018 \<le> length tup1 \<and>
   (\<exists>tup'. index_tuple_set_count x86_64 tup1 5 = Inr tup' \<and>
           only_counter_bytes_differ x86_64 0x2018 tup1 tup') \<and>
   (\<exists>tup'. index_tuple_add_count x86_64 tup1 3 = Inr tup' \<and>
           only_counter_bytes_differ x86_64 0x2018 tup1 tup')"
proof -
  have h1: "offsetof_t_info x86_64 + 2 \<le> sizeof_IndexTupleData x86_64"
    by (simp add: x86_64_def)
  have h2: "0 < MAXIMUM_ALIGNOF x86_64" by (simp add: x86_64_def)
  have h3: "t_info x86_64 tup1 = Inr 0x2018" by code_simp
  have h4: "has_count 0x2018" by (simp add: has_count_def)
  have h5: "IndexInfoFindDataOffset x86_64 0x2018 \<le> length tup1" by code_simp
  show ?thesis
    using h1 h2 h3 h4 h5 count_updates_frame [OF h1 h2 h3 h4 h5, of 5 3] by blast
qed

section \<open>\<open>index_getattr\<close>\<close>

text \<open>
  Claim C2. For a tuple that holds its regions and a 1-based attribute number within the
  descriptor, \<open>index_getattr\<close> selects the direct fetch at data offset plus cached offset
  if and only if \<open>HAS_NULLS\<close> is clear and the cached offset is not negative; in every
  other case in which the attribute is not null, whatever the cached offset when
  \<open>HAS_NULLS\<close> is set, it selects the walk \<open>nocache_index_getattr\<close>.
\<close>

theorem getattr_fast_path_iff:
  assumes "0 < MAXIMUM_ALIGNOF p"
    and "t_info p tup = Inr info" and "IndexInfoFindDataOffset p info \<le> length tup"
    and "0 < attnum" and "attnum \<le> int (length (attrs tupleDesc))"
    and "length (attrs tupleDesc) \<le> INDEX_MAX_KEYS p"
    and "att = attrs tupleDesc ! nat (attnum - 1)"
  shows "\<exists>r. index_getattr p tup attnum tupleDesc True = Inr r \<and>
           ((\<exists>a off. datum r = Fetchatt a off) \<longleftrightarrow> \<not> has_nulls info \<and> 0 \<le> attcacheoff att) \<and>
           (\<not> has_nulls info \<and> 0 \<le> attcacheoff att \<longrightarrow>
              datum r = Fetchatt att (IndexInfoFindDataOffset p info + nat (attcacheoff att)) \<and>
              \<not> isnull r) \<and>
           (\<not> (\<not> has_nulls info \<and> 0 \<le> attcacheoff att) \<and>
            \<not> (has_nulls info \<and>
                 att_isnull (nat (attnum - 1)) tup (sizeof_IndexTupleData p) = Inr True) \<longrightarrow>
              datum r = Nocache_index_getattr attnum \<and> \<not> isnull r)"
proof (cases "has_nulls info")
  case False
  then have nm: "\<not> (info AND INDEX_NULL_MASK \<noteq> 0)"
    by (simp add: null_mask_bit has_nulls_def)
  have at: "attrs_at tupleDesc (attnum - 1) = Inr att"
    using assms(4,5,7) by (simp add: attrs_at_def)
  show ?thesis
    using False nm at assms(2,4)
    by (cases "0 \<le> attcacheoff att")
      (simp_all add: index_getattr_def AssertMacro_def IndexTupleHasNulls_def)
next
  case True
  then have nm: "info AND INDEX_NULL_MASK \<noteq> 0"
    by (simp add: null_mask_bit has_nulls_def)
  have "attnum \<le> int (INDEX_MAX_KEYS p)" using assms(5,6) by linarith
  then have b: "nat (attnum - 1) div 8 < sizeof_IndexAttributeBitMapData p"
    using assms(4) by (intro bitmap_byte_in_bitmap)
  have "sizeof_IndexTupleData p + sizeof_IndexAttributeBitMapData p
          \<le> IndexInfoFindTupleCountOffset p info"
    using layout_order(2) [OF assms(1), of info] nm by simp
  moreover have "IndexInfoFindTupleCountOffset p info \<le> IndexInfoFindDataOffset p info"
    using layout_order(4) [OF assms(1), of info] by (simp split: if_splits)
  ultimately have "sizeof_IndexTupleData p + nat (attnum - 1) div 8 < length tup"
    using b assms(3) by linarith
  then obtain null where n: "att_isnull (nat (attnum - 1)) tup (sizeof_IndexTupleData p) = Inr null"
    by (simp add: att_isnull_def)
  show ?thesis
    using True nm n assms(2,4)
    by (cases null) (simp_all add: index_getattr_def AssertMacro_def IndexTupleHasNulls_def)
qed

theorem getattr_fast_path_iff_witness:
  "0 < MAXIMUM_ALIGNOF x86_64 \<and> t_info x86_64 tup0 = Inr 0x0010 \<and>
   IndexInfoFindDataOffset x86_64 0x0010 \<le> length tup0 \<and>
   (0::int) < 1 \<and> 1 \<le> int (length (attrs desc1)) \<and>
   length (attrs desc1) \<le> INDEX_MAX_KEYS x86_64 \<and>
   \<not> has_nulls 0x0010 \<and> 0 \<le> attcacheoff (attrs desc1 ! nat (1 - 1)) \<and>
   (\<exists>r. index_getattr x86_64 tup0 1 desc1 True = Inr r \<and>
        datum r = Fetchatt (attrs desc1 ! nat (1 - 1))
                    (IndexInfoFindDataOffset x86_64 0x0010 +
                     nat (attcacheoff (attrs desc1 ! nat (1 - 1)))) \<and>
        \<not> isnull r)"
proof -
  have h1: "0 < MAXIMUM_ALIGNOF x86_64" by (simp add: x86_64_def)
  have h2: "t_info x86_64 tup0 = Inr 0x0010" by code_simp
  have h3: "IndexInfoFindDataOffset x86_64 0x0010 \<le> length tup0" by code_simp
  have h4: "(0::int) < 1" by simp
  have h5: "1 \<le> int (length (attrs desc1))" by (simp add: desc1_def)
  have h6: "length (attrs desc1) \<le> INDEX_MAX_KEYS x86_64" by (simp add: desc1_def x86_64_def)
  have h7: "attrs desc1 ! nat (1 - 1) = attrs desc1 ! nat (1 - 1)" by (rule refl)
  have n: "\<not> has_nulls 0x0010" by (simp add: has_nulls_def)
  have c: "0 \<le> attcacheoff (attrs desc1 ! nat (1 - 1))" by (simp add: desc1_def)
  show ?thesis
    using h1 h2 h3 h4 h5 h6 n c getattr_fast_path_iff [OF h1 h2 h3 h4 h5 h6 h7]
    by blast
qed

text \<open>
  Claim C3. For a tuple with \<open>HAS_NULLS\<close> set and a 1-based attribute number whose bit of
  the bitmap marks it null, \<open>index_getattr\<close> yields \<open>(Datum) NULL\<close> with \<open>*isnull\<close> true,
  and no byte of the data region takes part: every tuple that agrees with this one on
  the header and the bitmap yields the same result, in particular the tuple with
  anything else from the data offset on. The positions the macro reads lie in the header
  or the bitmap, below the data offset.
\<close>

theorem getattr_null_without_data:
  assumes "0 < MAXIMUM_ALIGNOF p" and "offsetof_t_info p + 2 \<le> sizeof_IndexTupleData p"
    and "t_info p tup = Inr info" and "has_nulls info"
    and "0 < attnum" and "attnum \<le> int (INDEX_MAX_KEYS p)"
    and "att_isnull (nat (attnum - 1)) tup (sizeof_IndexTupleData p) = Inr True"
  shows "\<exists>r. index_getattr p tup attnum tupleDesc True = Inr r \<and>
             datum r = Datum_NULL \<and> isnull r \<and>
             (\<forall>tup'. take (sizeof_IndexTupleData p + sizeof_IndexAttributeBitMapData p) tup' =
                      take (sizeof_IndexTupleData p + sizeof_IndexAttributeBitMapData p) tup
                    \<longrightarrow> index_getattr p tup' attnum tupleDesc True = Inr r) \<and>
             (\<forall>data'. index_getattr p (take (IndexInfoFindDataOffset p info) tup @ data')
                        attnum tupleDesc True = Inr r) \<and>
             (\<forall>off \<in> set (touched r).
                off < sizeof_IndexTupleData p + sizeof_IndexAttributeBitMapData p \<and>
                off < IndexInfoFindDataOffset p info)"
proof -
  let ?r = "\<lparr>datum = Datum_NULL, isnull = True,
            touched = t_info_bytes p @ [sizeof_IndexTupleData p + nat (attnum - 1) div 8]\<rparr>"
  let ?n = "sizeof_IndexTupleData p + sizeof_IndexAttributeBitMapData p"
  let ?d = "IndexInfoFindDataOffset p info"
  let ?k = "sizeof_IndexTupleData p + nat (attnum - 1) div 8"
  have nm: "info AND INDEX_NULL_MASK \<noteq> 0"
    using assms(4) by (simp add: null_mask_bit has_nulls_def)
  have run: "index_getattr p tup attnum tupleDesc True = Inr ?r"
    using assms(3,5,7) nm
    by (simp add: index_getattr_def AssertMacro_def IndexTupleHasNulls_def)
  have hb: "?n \<le> IndexInfoFindTupleCountOffset p info"
    using layout_order(2) [OF assms(1), of info] nm by simp
  have "IndexInfoFindTupleCountOffset p info \<le> ?d"
    using layout_order(4) [OF assms(1), of info] by (simp split: if_splits)
  with hb have data: "?n \<le> ?d" by simp
  have kn: "?k < ?n" using bitmap_byte_in_bitmap [OF assms(5,6)] by simp
  have klen: "?k < length tup"
    using assms(7) by (simp add: att_isnull_def split: if_splits)
  have ilen: "offsetof_t_info p + 2 \<le> length tup"
    using assms(3) by (simp add: t_info_def load_def split: if_splits)
  have agree: "index_getattr p tup' attnum tupleDesc True = Inr ?r"
    if eq: "take m tup' = take m tup" and im: "offsetof_t_info p + 2 \<le> m" and km: "?k < m"
    for tup' m
  proof -
    have "(load p tup' (offsetof_t_info p) 2 :: error + uint16) =
          load p tup (offsetof_t_info p) 2"
      using eq im ilen by (rule load_take_eq)
    then have "t_info p tup' = Inr info"
      using assms(3) by (simp add: t_info_def)
    moreover have "att_isnull (nat (attnum - 1)) tup' (sizeof_IndexTupleData p) = Inr True"
      using att_isnull_take_eq [OF eq km klen] assms(7) by simp
    ultimately show ?thesis
      using assms(5) nm
      by (simp add: index_getattr_def AssertMacro_def IndexTupleHasNulls_def)
  qed
  have in_n: "offsetof_t_info p + 2 \<le> ?n" using assms(2) by simp
  have same: "index_getattr p tup' attnum tupleDesc True = Inr ?r"
    if "take ?n tup' = take ?n tup" for tup'
    using that in_n kn by (rule agree)
  have rest: "index_getattr p (take ?d tup @ data') attnum tupleDesc True = Inr ?r" for data'
  proof -
    let ?m = "min ?n (length tup)"
    have "?m \<le> length (take ?d tup)" using data by simp
    then have "take ?m (take ?d tup @ data') = take ?m (take ?d tup)" by simp
    also have "\<dots> = take ?m tup" using data by (simp add: min_def)
    finally have "take ?m (take ?d tup @ data') = take ?m tup" .
    moreover have "offsetof_t_info p + 2 \<le> ?m" using in_n ilen by simp
    moreover have "?k < ?m" using kn klen by simp
    ultimately show ?thesis by (rule agree)
  qed
  have "\<forall>off \<in> set (touched ?r). off < ?n"
    using assms(2) kn by (auto simp: t_info_bytes_def)
  with data have "\<forall>off \<in> set (touched ?r). off < ?n \<and> off < ?d" by auto
  with run same rest show ?thesis by simp
qed


theorem getattr_null_without_data_witness:
  "0 < MAXIMUM_ALIGNOF x86_64 \<and> offsetof_t_info x86_64 + 2 \<le> sizeof_IndexTupleData x86_64 \<and>
   t_info x86_64 tup2 = Inr 0x8018 \<and> has_nulls 0x8018 \<and>
   (0::int) < 2 \<and> 2 \<le> int (INDEX_MAX_KEYS x86_64) \<and>
   att_isnull (nat (2 - 1)) tup2 (sizeof_IndexTupleData x86_64) = Inr True \<and>
   (\<exists>r. index_getattr x86_64 tup2 2 desc1 True = Inr r \<and>
        datum r = Datum_NULL \<and> isnull r \<and>
        index_getattr x86_64
          (take (IndexInfoFindDataOffset x86_64 0x8018) tup2 @ [0xDE, 0xAD, 0xBE, 0xEF])
          2 desc1 True = Inr r \<and>
        (\<forall>off \<in> set (touched r). off < IndexInfoFindDataOffset x86_64 0x8018))"
proof -
  have h1: "0 < MAXIMUM_ALIGNOF x86_64" by (simp add: x86_64_def)
  have h2: "offsetof_t_info x86_64 + 2 \<le> sizeof_IndexTupleData x86_64"
    by (simp add: x86_64_def)
  have h3: "t_info x86_64 tup2 = Inr 0x8018" by code_simp
  have h4: "has_nulls 0x8018" by (simp add: has_nulls_def)
  have h5: "(0::int) < 2" by simp
  have h6: "2 \<le> int (INDEX_MAX_KEYS x86_64)" by (simp add: x86_64_def)
  have h7: "att_isnull (nat (2 - 1)) tup2 (sizeof_IndexTupleData x86_64) = Inr True"
    by code_simp
  show ?thesis
    using h1 h2 h3 h4 h5 h6 h7 getattr_null_without_data [OF h1 h2 h3 h4 h5 h6 h7, of desc1]
    by blast
qed

text \<open>
  Claim C9, as amended. An attribute number below 1 fails the assertion of
  \<open>index_getattr\<close>, for every tuple and descriptor. The macro asserts \<open>attnum > 0\<close> only and
  never compares the number with the descriptor's length.
\<close>

theorem getattr_asserts_positive_attnum:
  assumes "attnum < 1"
  shows "index_getattr p tup attnum tupleDesc isnull_valid = Inl AssertFailure"
  using assms by (simp add: index_getattr_def AssertMacro_def)

theorem getattr_asserts_positive_attnum_witness:
  "(0::int) < 1 \<and> index_getattr x86_64 tup2 0 desc1 True = Inl AssertFailure"
proof -
  have h: "(0::int) < 1" by simp
  show ?thesis using h getattr_asserts_positive_attnum [OF h, of x86_64 tup2 desc1 True] by simp
qed

text \<open>
  Claim C9 as stated fails above the descriptor's length: \<open>desc1\<close> has one attribute, and
  for attribute number 2 on \<open>tup2\<close> the macro returns the null result.
\<close>

theorem getattr_above_descriptor_count_returns:
  "\<not> (2 \<le> int (length (attrs desc1))) \<and>
   index_getattr x86_64 tup2 2 desc1 True =
     Inr \<lparr>datum = Datum_NULL, isnull = True, touched = [6, 7, 8]\<rparr>"
  by code_simp

end
